theory Spec2Isabelle
  imports Main
begin

section \<open>Exceptions\<close>

text \<open>
  The exceptions of \<^verbatim>\<open>python/tk_multi_loader/utils.py\<close> that a caller can observe. A function that
  can raise returns \<open>py_error + 'a\<close>, with \<open>Inl\<close> for the exception.
\<close>

datatype py_error = ValueError | AttributeError | KeyError | TypeError | TankError | OtherError

section \<open>The frame pattern\<close>

text \<open>
  \<^verbatim>\<open>frame_pattern = re.compile(r"([0-9#]+|[%]0\dd)$")\<close>

  Paths are byte strings, so \<^verbatim>\<open>\d\<close> is one of the ten ASCII digits. Python's \<^verbatim>\<open>$\<close> (no
  MULTILINE flag) holds at the end of the string and also just before a newline that is the
  last character of the string.
\<close>

definition is_digit :: "char \<Rightarrow> bool" where
  "is_digit c = (c \<in> set ''0123456789'')"

definition is_frame_char :: "char \<Rightarrow> bool" where
  "is_frame_char c = (is_digit c \<or> c = CHR ''#'')"

definition at_end :: "string \<Rightarrow> bool" where
  "at_end rest = (rest = [] \<or> rest = [CHR 0x0A])"

text \<open>
  The pattern tried at the start of \<open>s\<close>: the result is group 1 and what follows the match.
  The first alternative is greedy; a shorter run would be followed by another character of the
  class, where \<^verbatim>\<open>$\<close> cannot hold, so only the longest run is a candidate. The second
  alternative is the four characters of a \<^verbatim>\<open>%0Nd\<close> token.
\<close>

definition match_here :: "string \<Rightarrow> (string \<times> string) option" where
  "match_here s =
     (let run = takeWhile is_frame_char s; rest = dropWhile is_frame_char s in
      if run \<noteq> [] \<and> at_end rest then Some (run, rest)
      else (case s of
              c1 # c2 # c3 # c4 # rest' \<Rightarrow>
                if c1 = CHR ''%'' \<and> c2 = CHR ''0'' \<and> is_digit c3 \<and> c4 = CHR ''d'' \<and> at_end rest'
                then Some ([c1, c2, c3, c4], rest') else None
            | _ \<Rightarrow> None))"

text \<open>
  \<^verbatim>\<open>re.search(frame_pattern, s)\<close>: the leftmost position where the pattern matches. The result
  is what precedes the match, group 1, and what follows it.
\<close>

fun frame_search :: "string \<Rightarrow> (string \<times> string \<times> string) option" where
  "frame_search [] = None"
| "frame_search (c # cs) =
     (case match_here (c # cs) of
        Some (g, r) \<Rightarrow> Some ([], g, r)
      | None \<Rightarrow> (case frame_search cs of
                   Some (b, g, r) \<Rightarrow> Some (c # b, g, r)
                 | None \<Rightarrow> None))"

text \<open>
  \<^verbatim>\<open>re.sub(frame_pattern, "*", s)\<close>: every non-overlapping match, from the left, replaced by a
  star; the scan goes on after the match.
\<close>

lemma match_here_shorter: "match_here s = Some (g, r) \<Longrightarrow> length r < length s"
proof -
  assume m: "match_here s = Some (g, r)"
  have len: "length (dropWhile is_frame_char s) \<le> length s"
    by (rule length_dropWhile_le)
  show ?thesis
  proof (cases "takeWhile is_frame_char s \<noteq> [] \<and> at_end (dropWhile is_frame_char s)")
    case True
    then have "r = dropWhile is_frame_char s" and ne: "takeWhile is_frame_char s \<noteq> []"
      using m by (simp_all add: match_here_def Let_def)
    moreover have "length (takeWhile is_frame_char s) + length (dropWhile is_frame_char s) = length s"
      by (metis length_append takeWhile_dropWhile_id)
    ultimately show ?thesis using ne by (cases "takeWhile is_frame_char s") auto
  next
    case False
    then show ?thesis using m
      by (auto simp: match_here_def Let_def split: list.splits if_splits)
  qed
qed

function frame_sub :: "string \<Rightarrow> string" where
  "frame_sub [] = []"
| "frame_sub (c # cs) =
     (case match_here (c # cs) of
        Some (g, r) \<Rightarrow> CHR ''*'' # frame_sub r
      | None \<Rightarrow> c # frame_sub cs)"
  by pat_completeness auto
termination
  by (relation "measure length") (auto dest: match_here_shorter)

section \<open>Library functions used by the resolver\<close>

text \<open>
  \<^verbatim>\<open>os.path.splitext\<close> (posixpath): the extension starts at the last dot of the last path
  component, unless that component has only dots before it.
  \<^verbatim>\<open>
  sepIndex = p.rfind(sep)
  dotIndex = p.rfind(extsep)
  if dotIndex > sepIndex:
      filenameIndex = sepIndex + 1
      while filenameIndex < dotIndex:
          if p[filenameIndex:filenameIndex+1] != extsep:
              return p[:dotIndex], p[dotIndex:]
          filenameIndex += 1
  return p, p[:0]
  \<close>
\<close>

fun rfind_from :: "string \<Rightarrow> char \<Rightarrow> int \<Rightarrow> int \<Rightarrow> int" where
  "rfind_from [] c i best = best"
| "rfind_from (x # xs) c i best = rfind_from xs c (i + 1) (if x = c then i else best)"

definition rfind :: "string \<Rightarrow> char \<Rightarrow> int" where
  "rfind p c = rfind_from p c 0 (- 1)"

definition splitext :: "string \<Rightarrow> string \<times> string" where
  "splitext p =
     (let sepIndex = rfind p CHR ''/''; dotIndex = rfind p CHR ''.'' in
      if dotIndex > sepIndex \<and>
         list_ex (\<lambda>c. c \<noteq> CHR ''.'')
           (take (nat (dotIndex - (sepIndex + 1))) (drop (nat (sepIndex + 1)) p))
      then (take (nat dotIndex) p, drop (nat dotIndex) p)
      else (p, []))"

text \<open>
  \<^verbatim>\<open>int(s)\<close> on group 1 of the frame pattern. Such a string is a run of digits and hashes or a
  \<^verbatim>\<open>%0Nd\<close> token; on these \<^verbatim>\<open>int\<close> succeeds exactly when every character is a digit, and
  raises ValueError otherwise. The result is an unbounded integer. (A file name is far
  shorter than the 4300 digits after which recent versions of Python refuse the conversion.)
\<close>

definition digit_val :: "char \<Rightarrow> int" where
  "digit_val c = int (of_char c) - 48"

definition decimal :: "string \<Rightarrow> int" where
  "decimal s = foldl (\<lambda>a c. 10 * a + digit_val c) 0 s"

definition py_int :: "string \<Rightarrow> py_error + int" where
  "py_int s = (if s \<noteq> [] \<and> list_all is_digit s then Inr (decimal s) else Inl ValueError)"

text \<open>\<^verbatim>\<open>min\<close> and \<^verbatim>\<open>max\<close> of a list: ValueError on the empty list.\<close>

fun py_min :: "int list \<Rightarrow> py_error + int" where
  "py_min [] = Inl ValueError"
| "py_min (x # xs) = Inr (fold min xs x)"

fun py_max :: "int list \<Rightarrow> py_error + int" where
  "py_max [] = Inl ValueError"
| "py_max (x # xs) = Inr (fold max xs x)"

section \<open>Pattern-based resolution\<close>

text \<open>
  \<^verbatim>\<open>int(re.search(frame_pattern, f).group(1))\<close> for one file root: AttributeError when the
  search gives None, ValueError when group 1 is not a number.
\<close>

definition frame_number :: "string \<Rightarrow> py_error + int" where
  "frame_number f =
     (case frame_search f of
        None \<Rightarrow> Inl AttributeError
      | Some (b, g, r) \<Rightarrow> py_int g)"

text \<open>The list comprehension over the file roots: the first exception ends it.\<close>

fun frames_of :: "string list \<Rightarrow> py_error + int list" where
  "frames_of [] = Inr []"
| "frames_of (f # fs) =
     (case frame_number f of
        Inl e \<Rightarrow> Inl e
      | Inr n \<Rightarrow> (case frames_of fs of
                    Inl e \<Rightarrow> Inl e
                  | Inr ns \<Rightarrow> Inr (n # ns)))"

text \<open>
  \<^verbatim>\<open>sequence_range_from_path(path)\<close>. The file system is the parameter \<open>glob\<close>, the function
  \<^verbatim>\<open>glob.glob\<close> of the moment of the call: from a pattern to the paths that match it.
\<close>

definition glob_path_of :: "string \<Rightarrow> string \<Rightarrow> string" where
  "glob_path_of root ext = frame_sub root @ ext"

text \<open>The part of the function after the call of \<^verbatim>\<open>glob.glob\<close>, from \<open>files\<close> on.\<close>

definition frame_range :: "string list \<Rightarrow> py_error + (int \<times> int) option" where
  "frame_range files =
     (let file_roots = map (\<lambda>f. fst (splitext f)) files
      in case frames_of file_roots of
           Inl e \<Rightarrow> Inl e
         | Inr frames \<Rightarrow>
             (case py_min frames of
                Inl e \<Rightarrow> Inl e
              | Inr lo \<Rightarrow> (case py_max frames of
                             Inl e \<Rightarrow> Inl e
                           | Inr hi \<Rightarrow> Inr (Some (lo, hi)))))"

definition sequence_range_from_path ::
    "(string \<Rightarrow> string list) \<Rightarrow> string \<Rightarrow> py_error + (int \<times> int) option" where
  "sequence_range_from_path glob path =
     (let (root, ext) = splitext path in
      case frame_search root of
        None \<Rightarrow> Inr None
      | Some m \<Rightarrow> frame_range (glob (glob_path_of root ext)))"

text \<open>
  A directory for the concrete scenarios: \<open>dir_glob names pat\<close> is \<^verbatim>\<open>glob.glob(pat)\<close> in a
  current directory whose entries are \<open>names\<close>, for a pattern of literal characters, \<^verbatim>\<open>*\<close>
  and \<^verbatim>\<open>?\<close> without a directory part. As in \<^verbatim>\<open>glob\<close>, an entry that starts with a dot is
  listed only for a pattern that starts with a dot.
\<close>

fun wild_match :: "string \<Rightarrow> string \<Rightarrow> bool" where
  "wild_match [] [] = True"
| "wild_match [] (c # cs) = False"
| "wild_match (p # ps) [] = (p = CHR ''*'' \<and> wild_match ps [])"
| "wild_match (p # ps) (c # cs) =
     (if p = CHR ''*'' then wild_match ps (c # cs) \<or> wild_match (p # ps) cs
      else (p = CHR ''?'' \<or> p = c) \<and> wild_match ps cs)"

definition is_hidden :: "string \<Rightarrow> bool" where
  "is_hidden n = (case n of [] \<Rightarrow> False | c # cs \<Rightarrow> c = CHR ''.'')"

definition dir_glob :: "string list \<Rightarrow> string \<Rightarrow> string list" where
  "dir_glob names pat =
     filter (\<lambda>n. wild_match pat n \<and> (is_hidden pat \<or> \<not> is_hidden n)) names"

section \<open>Template-based resolution\<close>

text \<open>
  The toolkit is an external collaborator: \<^verbatim>\<open>tk.template_from_path\<close>, \<^verbatim>\<open>template.get_fields\<close>
  and \<^verbatim>\<open>tk.paths_from_template\<close> are parameters, each of which may raise. The fields of a path
  are a dictionary from field names to values; the value of a field is the frame number it
  holds, or Python's None. \<^verbatim>\<open>template_from_path\<close> gives a template or None.
\<close>

type_synonym field_map = "string \<rightharpoonup> int option"

record 'tmpl toolkit =
  template_from_path :: "string \<Rightarrow> py_error + 'tmpl option"
  get_fields :: "'tmpl \<Rightarrow> string \<Rightarrow> py_error + field_map"
  paths_from_template :: "'tmpl \<Rightarrow> field_map \<Rightarrow> string list \<Rightarrow> py_error + string list"

text \<open>
  The loop over \<open>files\<close>: \<^verbatim>\<open>fields.get("SEQ")\<close> is None for a missing key and for a key whose
  value is None; every other value is appended.
\<close>

fun template_frames ::
    "('tmpl \<Rightarrow> string \<Rightarrow> py_error + field_map) \<Rightarrow> 'tmpl \<Rightarrow> string list \<Rightarrow> py_error + int list" where
  "template_frames gf template [] = Inr []"
| "template_frames gf template (file # files) =
     (case gf template file of
        Inl e \<Rightarrow> Inl e
      | Inr flds \<Rightarrow>
          (case template_frames gf template files of
             Inl e \<Rightarrow> Inl e
           | Inr frames \<Rightarrow>
               Inr (case flds ''SEQ'' of
                      Some (Some frame) \<Rightarrow> frame # frames
                    | _ \<Rightarrow> frames)))"

text \<open>
  \<^verbatim>\<open>find_sequence_range(tk, path)\<close>. Only TankError is caught around \<^verbatim>\<open>template_from_path\<close>;
  it leaves \<open>template\<close> at None.
\<close>

definition find_sequence_range ::
    "'tmpl toolkit \<Rightarrow> (string \<Rightarrow> string list) \<Rightarrow> string \<Rightarrow> py_error + (int \<times> int) option" where
  "find_sequence_range tk glob path =
     (case (case template_from_path tk path of
              Inl e \<Rightarrow> if e = TankError then Inr None else Inl e
            | Inr t \<Rightarrow> Inr t) of
        Inl e \<Rightarrow> Inl e
      | Inr None \<Rightarrow> sequence_range_from_path glob path
      | Inr (Some template) \<Rightarrow>
          (case get_fields tk template path of
             Inl e \<Rightarrow> Inl e
           | Inr flds \<Rightarrow>
               if flds ''SEQ'' = None then sequence_range_from_path glob path
               else
                 (case paths_from_template tk template flds [''SEQ'', ''eye''] of
                    Inl e \<Rightarrow> Inl e
                  | Inr files \<Rightarrow>
                      (case template_frames (get_fields tk) template files of
                         Inl e \<Rightarrow> Inl e
                       | Inr frames \<Rightarrow>
                           if frames = [] then Inr None
                           else
                             (case py_min frames of
                                Inl e \<Rightarrow> Inl e
                              | Inr lo \<Rightarrow> (case py_max frames of
                                             Inl e \<Rightarrow> Inl e
                                           | Inr hi \<Rightarrow> Inr (Some (lo, hi))))))))"

section \<open>Python values\<close>

text \<open>
  The values that \<^verbatim>\<open>filter_publishes\<close> and \<^verbatim>\<open>resolve_filters\<close> handle: Shotgun dictionaries
  (with string keys, in insertion order), lists, strings, numbers and None.
\<close>

datatype pyval =
    PNone
  | PBool bool
  | PInt int
  | PStr string
  | PList "pyval list"
  | PDict "(string \<times> pyval) list"

text \<open>Truth value testing, as in \<^verbatim>\<open>if sg_data:\<close>.\<close>

fun truthy :: "pyval \<Rightarrow> bool" where
  "truthy PNone = False"
| "truthy (PBool b) = b"
| "truthy (PInt n) = (n \<noteq> 0)"
| "truthy (PStr s) = (s \<noteq> [])"
| "truthy (PList xs) = (xs \<noteq> [])"
| "truthy (PDict d) = (d \<noteq> [])"

text \<open>\<^verbatim>\<open>v.get(k)\<close>: only a dictionary has the method.\<close>

fun dict_get :: "pyval \<Rightarrow> string \<Rightarrow> py_error + pyval" where
  "dict_get (PDict d) k = Inr (case map_of d k of None \<Rightarrow> PNone | Some v \<Rightarrow> v)"
| "dict_get v k = Inl AttributeError"

text \<open>
  \<^verbatim>\<open>for x in v\<close>: the items of a list, the one-character strings of a string, the keys of a
  dictionary; TypeError for a value that is not iterable.
\<close>

fun iterate :: "pyval \<Rightarrow> py_error + pyval list" where
  "iterate (PList xs) = Inr xs"
| "iterate (PStr s) = Inr (map (\<lambda>c. PStr [c]) s)"
| "iterate (PDict d) = Inr (map (\<lambda>kv. PStr (fst kv)) d)"
| "iterate v = Inl TypeError"

fun type_name :: "pyval \<Rightarrow> string" where
  "type_name PNone = ''NoneType''"
| "type_name (PBool b) = ''bool''"
| "type_name (PInt n) = ''int''"
| "type_name (PStr s) = ''str''"
| "type_name (PList xs) = ''list''"
| "type_name (PDict d) = ''dict''"

section \<open>filter_publishes\<close>

text \<open>
  The app gives the hook: \<^verbatim>\<open>app.execute_hook(name, publishes=...)\<close> returns any value or raises.
  \<^verbatim>\<open>app.log_error\<close> and \<^verbatim>\<open>app.log_exception\<close> write to the log, which the function returns
  beside its result; \<open>Log_error\<close> holds the type name that the message reports.
\<close>

datatype log_entry = Log_error string | Log_exception

record app =
  execute_hook :: "string \<Rightarrow> pyval \<Rightarrow> py_error + pyval"

text \<open>
  The loop that splits the publishes back out. An exception in it is caught by the same
  \<^verbatim>\<open>except\<close> clause, which resets the result.
\<close>

fun split_publishes :: "pyval list \<Rightarrow> py_error + pyval list" where
  "split_publishes [] = Inr []"
| "split_publishes (item # items) =
     (case dict_get item ''sg_publish'' of
        Inl e \<Rightarrow> Inl e
      | Inr sg_data \<Rightarrow>
          (case split_publishes items of
             Inl e \<Rightarrow> Inl e
           | Inr rest \<Rightarrow> Inr (if truthy sg_data then sg_data # rest else rest)))"

definition filter_publishes :: "app \<Rightarrow> pyval list \<Rightarrow> pyval list \<times> log_entry list" where
  "filter_publishes ap sg_data_list =
     (let hook_publish_list = map (\<lambda>sg_data. PDict [(''sg_publish'', sg_data)]) sg_data_list
      in case execute_hook ap ''filter_publishes_hook'' (PList hook_publish_list) of
           Inl e \<Rightarrow> ([], [Log_exception])
         | Inr result \<Rightarrow>
             (let (items, logged) =
                    (case result of
                       PList xs \<Rightarrow> (xs, [])
                     | _ \<Rightarrow> ([], [Log_error (type_name result)]))
              in case split_publishes items of
                   Inl e \<Rightarrow> ([], logged @ [Log_exception])
                 | Inr sg \<Rightarrow> (sg, logged)))"

section \<open>resolve_filters\<close>

text \<open>The fields of \<^verbatim>\<open>app.context\<close> that the resolver reads.\<close>

record app_context =
  entity :: pyval
  step :: pyval
  project :: pyval
  task :: pyval
  user :: pyval

text \<open>The \<^verbatim>\<open>if\<close>/\<^verbatim>\<open>elif\<close> chain on one field.\<close>

definition resolve_field :: "app_context \<Rightarrow> pyval \<Rightarrow> py_error + pyval" where
  "resolve_field ctx field =
     (if field = PStr ''{context.entity}'' then Inr (entity ctx)
      else if field = PStr ''{context.step}'' then Inr (step ctx)
      else if field = PStr ''{context.project}'' then Inr (project ctx)
      else if field = PStr ''{context.project.id}'' then
        (if truthy (project ctx) then dict_get (project ctx) ''id'' else Inr PNone)
      else if field = PStr ''{context.task}'' then Inr (task ctx)
      else if field = PStr ''{context.user}'' then Inr (user ctx)
      else Inr field)"

fun resolve_fields :: "app_context \<Rightarrow> pyval list \<Rightarrow> py_error + pyval list" where
  "resolve_fields ctx [] = Inr []"
| "resolve_fields ctx (field # rest) =
     (case resolve_field ctx field of
        Inl e \<Rightarrow> Inl e
      | Inr v \<Rightarrow> (case resolve_fields ctx rest of
                    Inl e \<Rightarrow> Inl e
                  | Inr vs \<Rightarrow> Inr (v # vs)))"

text \<open>
  The recursion of \<^verbatim>\<open>resolve_filters\<close> goes into the value of \<^verbatim>\<open>"filters"\<close> of a dictionary.
  \<open>weight\<close> counts the lists and dictionaries of a value; it is the termination measure.
\<close>

fun weight :: "pyval \<Rightarrow> nat" where
  "weight (PList xs) = Suc (sum_list (map weight xs))"
| "weight (PDict d) = Suc (sum_list (map (\<lambda>kv. weight (snd kv)) d))"
| "weight v = 0"

lemma weight_map_of: "map_of d k = Some v \<Longrightarrow> weight v < weight (PDict d)"
  by (induction d) (auto split: if_splits)

lemma weight_iterate: "iterate v = Inr xs \<Longrightarrow> sum_list (map weight xs) \<le> weight v"
  by (cases v) (auto simp: comp_def)

text \<open>
  \<^verbatim>\<open>resolve_filters(filters)\<close>, with the context of the current bundle as a parameter.
  \<^verbatim>\<open>filter["filter_operator"]\<close> and \<^verbatim>\<open>filter["filters"]\<close> raise KeyError for a missing key.
\<close>

function resolve_filters :: "app_context \<Rightarrow> pyval list \<Rightarrow> py_error + pyval list" where
  "resolve_filters ctx [] = Inr []"
| "resolve_filters ctx (flt # rest) =
     (case (case flt of
              PDict d \<Rightarrow>
                (case map_of d ''filter_operator'' of
                   None \<Rightarrow> Inl KeyError
                 | Some op \<Rightarrow>
                     (case map_of d ''filters'' of
                        None \<Rightarrow> Inl KeyError
                      | Some sub \<Rightarrow>
                          (case iterate sub of
                             Inl e \<Rightarrow> Inl e
                           | Inr subs \<Rightarrow>
                               (case resolve_filters ctx subs of
                                  Inl e \<Rightarrow> Inl e
                                | Inr rs \<Rightarrow>
                                    Inr (PDict [(''filter_operator'', op),
                                                (''filters'', PList rs)])))))
            | _ \<Rightarrow>
                (case iterate flt of
                   Inl e \<Rightarrow> Inl e
                 | Inr flds \<Rightarrow>
                     (case resolve_fields ctx flds of
                        Inl e \<Rightarrow> Inl e
                      | Inr vs \<Rightarrow> Inr (PList vs)))) of
        Inl e \<Rightarrow> Inl e
      | Inr resolved_filter \<Rightarrow>
          (case resolve_filters ctx rest of
             Inl e \<Rightarrow> Inl e
           | Inr resolved \<Rightarrow> Inr (resolved_filter # resolved)))"
  by pat_completeness auto
termination
proof (relation "measures [\<lambda>(ctx, fs). sum_list (map weight fs), \<lambda>(ctx, fs). length fs]")
  show "wf (measures [\<lambda>(ctx, fs). sum_list (map weight fs), \<lambda>(ctx, fs). length fs])"
    by simp
next
  fix ctx :: app_context and flt rest d sub subs
  assume "flt = PDict d" "map_of d ''filters'' = Some sub" "iterate sub = Inr subs"
  then show "((ctx, subs), (ctx, flt # rest)) \<in>
      measures [\<lambda>(ctx, fs). sum_list (map weight fs), \<lambda>(ctx, fs). length fs]"
    using weight_map_of[of d "''filters''" sub] weight_iterate[of sub subs] by simp
next
  fix ctx :: app_context and flt rest
  show "((ctx, rest), (ctx, flt # rest)) \<in>
      measures [\<lambda>(ctx, fs). sum_list (map weight fs), \<lambda>(ctx, fs). length fs]"
    by auto
qed

section \<open>The vocabulary of the claims\<close>

text \<open>
  The frame token at the end of a stem, as the specification describes it: the longest
  trailing run of digits and hashes (\<open>trailing_run\<close>, with \<open>stem_prefix\<close> what is before it),
  or a \<^verbatim>\<open>%0Nd\<close> token with one digit \<open>N\<close> (\<open>frame_token\<close>).
\<close>

definition frame_token :: "char \<Rightarrow> string" where
  "frame_token d = [CHR ''%'', CHR ''0'', d, CHR ''d'']"

definition trailing_run :: "string \<Rightarrow> string" where
  "trailing_run s = rev (takeWhile is_frame_char (rev s))"

definition stem_prefix :: "string \<Rightarrow> string" where
  "stem_prefix s = rev (dropWhile is_frame_char (rev s))"

text \<open>The stem of a file ends in a frame token of decimal digits only, and the number it writes.\<close>

definition digit_stem :: "string \<Rightarrow> bool" where
  "digit_stem f = (let t = trailing_run (fst (splitext f)) in t \<noteq> [] \<and> list_all is_digit t)"

definition frame_value :: "string \<Rightarrow> int" where
  "frame_value f = decimal (trailing_run (fst (splitext f)))"

text \<open>A stem ends in a run of digits or hashes, or in a \<^verbatim>\<open>%0Nd\<close> token.\<close>

definition ends_in_frame_token :: "string \<Rightarrow> bool" where
  "ends_in_frame_token s =
     ((s \<noteq> [] \<and> is_frame_char (last s)) \<or>
      (case rev s of
         c4 # c3 # c2 # c1 # _ \<Rightarrow> c1 = CHR ''%'' \<and> c2 = CHR ''0'' \<and> is_digit c3 \<and> c4 = CHR ''d''
       | _ \<Rightarrow> False))"

text \<open>
  The width \<open>N\<close> that the digit of a \<^verbatim>\<open>%0Nd\<close> token writes.
\<close>

definition token_width :: "char \<Rightarrow> nat" where
  "token_width d = nat (digit_val d)"

text \<open>
  The fallback condition of the top-level resolver, in the words of the specification:
  classification fails (TankError, or no template), or the fields of the matched template
  have no \<^verbatim>\<open>SEQ\<close>.
\<close>

definition falls_back :: "'tmpl toolkit \<Rightarrow> string \<Rightarrow> bool" where
  "falls_back tk path =
     (case template_from_path tk path of
        Inl e \<Rightarrow> e = TankError
      | Inr None \<Rightarrow> True
      | Inr (Some template) \<Rightarrow>
          (case get_fields tk template path of
             Inl e \<Rightarrow> False
           | Inr flds \<Rightarrow> flds ''SEQ'' = None))"

text \<open>
  For \<open>filter_publishes\<close>: what the hook returns for an input list, and the \<^verbatim>\<open>sg_publish\<close>
  values of the returned items for which the value is present and truthy, in order.
\<close>

fun is_dict :: "pyval \<Rightarrow> bool" where
  "is_dict (PDict d) = True"
| "is_dict v = False"

fun is_list :: "pyval \<Rightarrow> bool" where
  "is_list (PList xs) = True"
| "is_list v = False"

definition hook_result :: "app \<Rightarrow> pyval list \<Rightarrow> py_error + pyval" where
  "hook_result ap sg_data_list =
     execute_hook ap ''filter_publishes_hook''
       (PList (map (\<lambda>sg_data. PDict [(''sg_publish'', sg_data)]) sg_data_list))"

fun publish_of :: "pyval \<Rightarrow> pyval list" where
  "publish_of (PDict d) =
     (case map_of d ''sg_publish'' of
        Some v \<Rightarrow> if truthy v then [v] else []
      | None \<Rightarrow> [])"
| "publish_of v = []"

definition publishes_of :: "pyval list \<Rightarrow> pyval list" where
  "publishes_of items = concat (map publish_of items)"

text \<open>
  For \<open>resolve_filters\<close>: the six context tokens; the fields of a list filter that are not
  tokens stay where they are (\<open>fields_kept\<close>); a dictionary filter is rebuilt with its operator
  and with its filters resolved, a list filter field by field (\<open>filter_shape\<close>).
\<close>

definition context_tokens :: "pyval list" where
  "context_tokens =
     [PStr ''{context.entity}'', PStr ''{context.step}'', PStr ''{context.project}'',
      PStr ''{context.project.id}'', PStr ''{context.task}'', PStr ''{context.user}'']"

definition is_token :: "pyval \<Rightarrow> bool" where
  "is_token field = (field \<in> set context_tokens)"

definition fields_kept :: "pyval list \<Rightarrow> pyval list \<Rightarrow> bool" where
  "fields_kept flds vs = list_all2 (\<lambda>field v. \<not> is_token field \<longrightarrow> v = field) flds vs"

definition filter_shape :: "app_context \<Rightarrow> pyval \<Rightarrow> pyval \<Rightarrow> bool" where
  "filter_shape ctx flt res =
     (case flt of
        PDict d \<Rightarrow>
          (case map_of d ''filter_operator'' of
             None \<Rightarrow> False
           | Some op \<Rightarrow>
               (case map_of d ''filters'' of
                  None \<Rightarrow> False
                | Some sub \<Rightarrow>
                    (case iterate sub of
                       Inl e \<Rightarrow> False
                     | Inr subs \<Rightarrow>
                         (case resolve_filters ctx subs of
                            Inl e \<Rightarrow> False
                          | Inr rs \<Rightarrow>
                              res = PDict [(''filter_operator'', op), (''filters'', PList rs)]))))
      | _ \<Rightarrow>
          (case iterate flt of
             Inl e \<Rightarrow> False
           | Inr flds \<Rightarrow> (case res of PList vs \<Rightarrow> fields_kept flds vs | _ \<Rightarrow> False)))"

text \<open>
  A filter in the documented format, and a context whose project is a dictionary or None.
\<close>

function well_formed :: "pyval \<Rightarrow> bool" where
  "well_formed (PDict d) =
     (map_of d ''filter_operator'' \<noteq> None \<and>
      (case map_of d ''filters'' of
         Some (PList subs) \<Rightarrow> list_all well_formed subs
       | _ \<Rightarrow> False))"
| "well_formed (PList flds) = True"
| "well_formed PNone = False"
| "well_formed (PBool b) = False"
| "well_formed (PInt n) = False"
| "well_formed (PStr s) = False"
  by pat_completeness auto
termination
proof (relation "measure weight")
  show "wf (measure weight)" by simp
next
  fix d x2 subs z
  assume "map_of d ''filters'' = Some x2" "x2 = PList subs" "z \<in> set subs"
  then have "weight (PList subs) < weight (PDict d)" "weight z \<le> sum_list (map weight subs)"
    using weight_map_of[of d "''filters''" "PList subs"] by (simp_all add: member_le_sum_list)
  then show "(z, PDict d) \<in> measure weight" by simp
qed

definition project_ok :: "app_context \<Rightarrow> bool" where
  "project_ok ctx = (project ctx = PNone \<or> is_dict (project ctx))"

section \<open>Scenarios\<close>

text \<open>
  Toolkits: \<open>no_templates\<close> matches no path; \<open>shot_templates\<close> matches every path, finds
  \<^verbatim>\<open>SEQ\<close> in three file names only, and enumerates two siblings; \<open>lone_templates\<close> enumerates
  none.
\<close>

definition no_templates :: "unit toolkit" where
  "no_templates =
     \<lparr>template_from_path = (\<lambda>p. Inr None),
      get_fields = (\<lambda>t p. Inl TankError),
      paths_from_template = (\<lambda>t f skip. Inr [])\<rparr>"

definition shot_fields :: "string \<Rightarrow> field_map" where
  "shot_fields p =
     (if p = ''shot_0011.exr'' then [''SEQ'' \<mapsto> Some 11]
      else if p = ''shot_1001.exr'' then [''SEQ'' \<mapsto> Some 1001]
      else if p = ''shot_1003.exr'' then [''SEQ'' \<mapsto> Some 1003]
      else Map.empty)"

definition shot_templates :: "unit toolkit" where
  "shot_templates =
     \<lparr>template_from_path = (\<lambda>p. Inr (Some ())),
      get_fields = (\<lambda>t p. Inr (shot_fields p)),
      paths_from_template = (\<lambda>t f skip. Inr [''shot_1001.exr'', ''shot_1003.exr''])\<rparr>"

definition lone_templates :: "unit toolkit" where
  "lone_templates =
     \<lparr>template_from_path = (\<lambda>p. Inr (Some ())),
      get_fields = (\<lambda>t p. Inr (shot_fields p)),
      paths_from_template = (\<lambda>t f skip. Inr [])\<rparr>"

text \<open>
  Hooks: one that keeps every publish, one that raises, one that returns None, and one that
  appends None to the list.
\<close>

definition keep_all :: app where
  "keep_all = \<lparr>execute_hook = (\<lambda>name publishes. Inr publishes)\<rparr>"

definition failing_hook :: app where
  "failing_hook = \<lparr>execute_hook = (\<lambda>name publishes. Inl OtherError)\<rparr>"

definition none_hook :: app where
  "none_hook = \<lparr>execute_hook = (\<lambda>name publishes. Inr PNone)\<rparr>"

definition sloppy_hook :: app where
  "sloppy_hook =
     \<lparr>execute_hook = (\<lambda>name publishes.
        case publishes of PList xs \<Rightarrow> Inr (PList (xs @ [PNone])) | _ \<Rightarrow> Inr publishes)\<rparr>"

text \<open>
  A context and a list of filters in the format of the docstring.
\<close>

definition artist_context :: app_context where
  "artist_context =
     \<lparr>entity = PDict [(''type'', PStr ''Shot''), (''id'', PInt 12)],
      step = PNone,
      project = PDict [(''type'', PStr ''Project''), (''id'', PInt 7)],
      task = PNone,
      user = PDict [(''type'', PStr ''HumanUser''), (''id'', PInt 86)]\<rparr>"

definition artist_filters :: "pyval list" where
  "artist_filters =
     [PList [PStr ''task_assignees'', PStr ''is'', PStr ''{context.user}''],
      PDict [(''filter_operator'', PStr ''any''),
             (''filters'', PList [PList [PStr ''project.id'', PStr ''is'',
                                         PStr ''{context.project.id}'']])]]"

section \<open>Properties of the frame pattern\<close>

lemma match_here_run:
  assumes "run \<noteq> []" "list_all is_frame_char run"
  shows "match_here run = Some (run, [])"
proof -
  have all: "\<forall>c \<in> set run. is_frame_char c"
    using assms(2) by (simp add: list_all_iff)
  have "takeWhile is_frame_char run = run"
    using all by (simp only: takeWhile_eq_all_conv)
  moreover have "dropWhile is_frame_char run = []"
    using all by (simp only: dropWhile_eq_Nil_conv)
  ultimately show ?thesis
    unfolding match_here_def Let_def using assms(1) by (simp only: at_end_def) simp
qed

lemma not_frame_char_newline: "\<not> is_frame_char (CHR 0x0A)"
  by (simp add: is_frame_char_def is_digit_def)

lemma not_frame_char_d: "\<not> is_frame_char CHR ''d''"
  by (simp add: is_frame_char_def is_digit_def)

lemma match_here_decomp:
  assumes "match_here s = Some (g, r)"
  shows "s = g @ r \<and> at_end r \<and> g \<noteq> [] \<and>
         (list_all is_frame_char g \<or> (\<exists>d. is_digit d \<and> g = [CHR ''%'', CHR ''0'', d, CHR ''d'']))"
proof (cases "takeWhile is_frame_char s \<noteq> [] \<and> at_end (dropWhile is_frame_char s)")
  case True
  then have "g = takeWhile is_frame_char s" "r = dropWhile is_frame_char s"
    using assms by (simp_all add: match_here_def)
  then show ?thesis using True by (auto simp: list_all_iff dest: set_takeWhileD)
next
  case False
  then show ?thesis using assms
    by (auto simp: match_here_def split: list.splits if_splits)
qed

lemma match_here_last_frame:
  assumes "match_here s = Some (g, r)" "s \<noteq> []" "is_frame_char (last s)"
  shows "r = [] \<and> g = s \<and> list_all is_frame_char s"
proof -
  from match_here_decomp[OF assms(1)] have
    d: "s = g @ r" "at_end r" "g \<noteq> []"
       "list_all is_frame_char g \<or> (\<exists>d. is_digit d \<and> g = [CHR ''%'', CHR ''0'', d, CHR ''d''])"
    by auto
  have r: "r = []"
  proof (rule ccontr)
    assume "r \<noteq> []"
    then have "r = [CHR 0x0A]" using d(2) by (simp add: at_end_def)
    then have "last s = CHR 0x0A" using d(1) by simp
    then show False using assms(3) not_frame_char_newline by simp
  qed
  then have gs: "g = s" using d(1) by simp
  have "list_all is_frame_char g"
  proof (rule ccontr)
    assume "\<not> list_all is_frame_char g"
    then obtain dd where "g = [CHR ''%'', CHR ''0'', dd, CHR ''d'']" using d(4) by blast
    then have "last s = CHR ''d''" using gs by simp
    then show False using assms(3) not_frame_char_d by simp
  qed
  then show ?thesis using r gs by simp
qed

lemma match_here_None_prefix:
  assumes "x \<in> set q" "\<not> is_frame_char x" "run \<noteq> []" "list_all is_frame_char run"
  shows "match_here (q @ run) = None"
proof (rule ccontr)
  assume "match_here (q @ run) \<noteq> None"
  then obtain g r where m: "match_here (q @ run) = Some (g, r)" by auto
  have "is_frame_char (last (q @ run))" using assms(3,4) by (simp add: list_all_iff)
  with match_here_last_frame[OF m] assms(3) have "list_all is_frame_char (q @ run)" by simp
  then show False using assms(1,2) by (simp add: list_all_iff)
qed

lemma frame_search_run:
  assumes "run \<noteq> []" "list_all is_frame_char run" "pre = [] \<or> \<not> is_frame_char (last pre)"
  shows "frame_search (pre @ run) = Some (pre, run, [])"
  using assms(3)
proof (induction pre)
  case Nil
  obtain c cs where "run = c # cs" using assms(1) by (cases run) auto
  then show ?case using match_here_run[OF assms(1,2)] by simp
next
  case (Cons a pre)
  have nf: "\<not> is_frame_char (last (a # pre))" using Cons.prems by simp
  have "last (a # pre) \<in> set (a # pre)" by (rule last_in_set) simp
  from match_here_None_prefix[OF this nf assms(1,2)]
  have mh: "match_here (a # pre @ run) = None" by simp
  have "pre = [] \<or> \<not> is_frame_char (last pre)" using nf by auto
  from Cons.IH[OF this] show ?case using mh by simp
qed

lemma frame_sub_run:
  assumes "run \<noteq> []" "list_all is_frame_char run" "pre = [] \<or> \<not> is_frame_char (last pre)"
  shows "frame_sub (pre @ run) = pre @ ''*''"
  using assms(3)
proof (induction pre)
  case Nil
  obtain c cs where "run = c # cs" using assms(1) by (cases run) auto
  then show ?case using match_here_run[OF assms(1,2)] by simp
next
  case (Cons a pre)
  have nf: "\<not> is_frame_char (last (a # pre))" using Cons.prems by simp
  have "last (a # pre) \<in> set (a # pre)" by (rule last_in_set) simp
  from match_here_None_prefix[OF this nf assms(1,2)]
  have mh: "match_here (a # pre @ run) = None" by simp
  have "pre = [] \<or> \<not> is_frame_char (last pre)" using nf by auto
  from Cons.IH[OF this] show ?case using mh by simp
qed

lemma match_here_token:
  assumes "is_digit d"
  shows "match_here (frame_token d) = Some (frame_token d, [])"
  using assms by (simp add: match_here_def frame_token_def at_end_def is_frame_char_def is_digit_def)

lemma match_here_None_before_token:
  assumes "q \<noteq> []"
  shows "match_here (q @ frame_token d) = None"
proof (rule ccontr)
  assume "match_here (q @ frame_token d) \<noteq> None"
  then obtain g r where m: "match_here (q @ frame_token d) = Some (g, r)" by auto
  from match_here_decomp[OF m] have
    d: "q @ frame_token d = g @ r" "at_end r" "g \<noteq> []"
       "list_all is_frame_char g \<or> (\<exists>d. is_digit d \<and> g = [CHR ''%'', CHR ''0'', d, CHR ''d''])"
    by auto
  have l: "last (q @ frame_token d) = CHR ''d''" by (simp add: frame_token_def)
  have r: "r = []"
  proof (rule ccontr)
    assume "r \<noteq> []"
    then have "r = [CHR 0x0A]" using d(2) by (simp add: at_end_def)
    then have "last (g @ r) = CHR 0x0A" by simp
    then show False using l d(1) by simp
  qed
  then have gs: "g = q @ frame_token d" using d(1) by simp
  show False
  proof (cases "list_all is_frame_char g")
    case True
    then have "is_frame_char (last g)" using d(3) by (simp add: list_all_iff)
    then show False using gs l not_frame_char_d by simp
  next
    case False
    then obtain dd where "g = [CHR ''%'', CHR ''0'', dd, CHR ''d'']" using d(4) by blast
    then have "length g = 4" by simp
    moreover have "length g = length q + 4" using gs by (simp add: frame_token_def)
    ultimately show False using assms by simp
  qed
qed

lemma frame_search_token:
  assumes "is_digit d"
  shows "frame_search (pre @ frame_token d) = Some (pre, frame_token d, [])"
proof (induction pre)
  case Nil
  show ?case using match_here_token[OF assms] by (simp add: frame_token_def)
next
  case (Cons a pre)
  have "match_here ((a # pre) @ frame_token d) = None"
    by (rule match_here_None_before_token) simp
  then show ?case using Cons.IH by simp
qed

lemma frame_sub_token:
  assumes "is_digit d"
  shows "frame_sub (pre @ frame_token d) = pre @ ''*''"
proof (induction pre)
  case Nil
  show ?case using match_here_token[OF assms] by (simp add: frame_token_def)
next
  case (Cons a pre)
  have "match_here ((a # pre) @ frame_token d) = None"
    by (rule match_here_None_before_token) simp
  then show ?case using Cons.IH by simp
qed

lemma stem_split: "stem_prefix s @ trailing_run s = s"
  unfolding stem_prefix_def trailing_run_def
  by (metis rev_append rev_rev_ident takeWhile_dropWhile_id)

lemma trailing_run_frame: "list_all is_frame_char (trailing_run s)"
  by (auto simp: trailing_run_def list_all_iff dest: set_takeWhileD)

lemma stem_prefix_last: "stem_prefix s = [] \<or> \<not> is_frame_char (last (stem_prefix s))"
proof (cases "dropWhile is_frame_char (rev s)")
  case Nil
  then show ?thesis by (simp add: stem_prefix_def)
next
  case (Cons a as)
  then have "\<not> is_frame_char a" by (metis hd_dropWhile list.sel(1) list.distinct(1))
  moreover have "last (stem_prefix s) = a" using Cons by (simp add: stem_prefix_def)
  ultimately show ?thesis by simp
qed

lemma trailing_run_nonempty:
  assumes "s \<noteq> []" "is_frame_char (last s)"
  shows "trailing_run s \<noteq> []"
proof -
  obtain a as where r: "rev s = a # as" using assms(1) by (cases "rev s") auto
  have "a = last s" using r by (metis assms(1) hd_rev list.sel(1))
  then have "is_frame_char a" using assms(2) by simp
  then have "takeWhile is_frame_char (a # as) \<noteq> []" by simp
  then show ?thesis unfolding trailing_run_def r by simp
qed

lemma frame_search_stem:
  assumes "trailing_run s \<noteq> []"
  shows "frame_search s = Some (stem_prefix s, trailing_run s, [])"
  using frame_search_run[OF assms trailing_run_frame stem_prefix_last[of s]] by (simp add: stem_split)

lemma frame_sub_stem:
  assumes "trailing_run s \<noteq> []"
  shows "frame_sub s = stem_prefix s @ ''*''"
  using frame_sub_run[OF assms trailing_run_frame stem_prefix_last[of s]] by (simp add: stem_split)

lemma py_int_digits: "s \<noteq> [] \<Longrightarrow> list_all is_digit s \<Longrightarrow> py_int s = Inr (decimal s)"
  by (simp add: py_int_def)

lemma frame_number_digit_stem:
  assumes "digit_stem f"
  shows "frame_number (fst (splitext f)) = Inr (frame_value f)"
proof -
  let ?r = "fst (splitext f)"
  have t: "trailing_run ?r \<noteq> []" "list_all is_digit (trailing_run ?r)"
    using assms by (simp_all add: digit_stem_def Let_def)
  show ?thesis using frame_search_stem[OF t(1)] py_int_digits[OF t]
    by (simp add: frame_number_def frame_value_def)
qed

lemma frames_of_digit_stems:
  assumes "\<forall>f \<in> set files. digit_stem f"
  shows "frames_of (map (\<lambda>f. fst (splitext f)) files) = Inr (map frame_value files)"
  using assms by (induction files) (simp_all add: frame_number_digit_stem)

lemma py_min_Min: "xs \<noteq> [] \<Longrightarrow> py_min xs = Inr (Min (set xs))"
  by (cases xs) (simp_all add: Min.set_eq_fold[symmetric])

lemma py_max_Max: "xs \<noteq> [] \<Longrightarrow> py_max xs = Inr (Max (set xs))"
  by (cases xs) (simp_all add: Max.set_eq_fold[symmetric])

lemma is_digit_frame_char: "is_digit c \<Longrightarrow> is_frame_char c"
  by (simp add: is_frame_char_def)

lemma seq_range_unfold:
  assumes "splitext path = (root, ext)" "frame_search root = Some m"
  shows "sequence_range_from_path glob path = frame_range (glob (glob_path_of root ext))"
  using assms by (simp add: sequence_range_from_path_def)

lemma seq_range_no_match:
  assumes "splitext path = (root, ext)" "frame_search root = None"
  shows "sequence_range_from_path glob path = Inr None"
  using assms by (simp add: sequence_range_from_path_def)

lemma frame_range_not_absent: "frame_range files \<noteq> Inr None"
  by (simp add: frame_range_def split: sum.splits)

lemma frame_search_decomp:
  "frame_search s = Some (b, g, r) \<Longrightarrow> s = b @ g @ r \<and> match_here (g @ r) = Some (g, r)"
proof (induction s arbitrary: b)
  case Nil
  then show ?case by simp
next
  case (Cons c cs)
  show ?case
  proof (cases "match_here (c # cs)")
    case None
    then obtain b' where b': "frame_search cs = Some (b', g, r)" "b = c # b'"
      using Cons.prems by (auto split: option.splits)
    from Cons.IH[OF b'(1)] b'(2) show ?thesis by simp
  next
    case (Some gr)
    then have "b = []" "gr = (g, r)" using Cons.prems by (auto split: prod.splits)
    moreover from match_here_decomp[of "c # cs" g r] Some \<open>gr = (g, r)\<close> have "c # cs = g @ r" by simp
    ultimately show ?thesis using Some by simp
  qed
qed

lemma frame_search_marker:
  assumes "frame_search s = Some (b, g, r)"
  shows "(r = [] \<and> ends_in_frame_token s) \<or>
         (r = [CHR 0x0A] \<and> s = butlast s @ [CHR 0x0A] \<and> ends_in_frame_token (butlast s))"
proof -
  from frame_search_decomp[OF assms] have s: "s = b @ g @ r" and m: "match_here (g @ r) = Some (g, r)"
    by auto
  from match_here_decomp[OF m] have
    d: "at_end r" "g \<noteq> []"
       "list_all is_frame_char g \<or> (\<exists>d. is_digit d \<and> g = [CHR ''%'', CHR ''0'', d, CHR ''d''])"
    by auto
  have tok: "ends_in_frame_token (b @ g)"
  proof (cases "list_all is_frame_char g")
    case True
    then have "is_frame_char (last (b @ g))" using d(2) by (simp add: list_all_iff)
    then show ?thesis using d(2) by (simp add: ends_in_frame_token_def)
  next
    case False
    then obtain dd where "is_digit dd" "g = [CHR ''%'', CHR ''0'', dd, CHR ''d'']" using d(3) by blast
    then show ?thesis by (simp add: ends_in_frame_token_def)
  qed
  show ?thesis
  proof (cases "r = []")
    case True
    then show ?thesis using tok s by simp
  next
    case False
    then have r: "r = [CHR 0x0A]" using d(1) by (simp add: at_end_def)
    then have "butlast s = b @ g" using s by (simp add: butlast_append)
    then show ?thesis using tok r s by simp
  qed
qed

lemma no_marker_absent:
  assumes "splitext path = (root, ext)"
    and "\<not> ends_in_frame_token root"
    and "\<not> (root \<noteq> [] \<and> last root = CHR 0x0A \<and> ends_in_frame_token (butlast root))"
  shows "sequence_range_from_path glob path = Inr None"
proof -
  have "frame_search root = None"
  proof (rule ccontr)
    assume "frame_search root \<noteq> None"
    then obtain b g r where "frame_search root = Some (b, g, r)" by auto
    from frame_search_marker[OF this] assms(2,3) show False
      by (metis append_is_Nil_conv last_snoc not_Cons_self2)
  qed
  then show ?thesis using assms(1) by (rule seq_range_no_match[rotated])
qed

lemma frames_of_error:
  assumes "f \<in> set fs" "frame_number f = Inl e"
  shows "\<exists>e'. frames_of fs = Inl e'"
  using assms by (induction fs) (auto split: sum.splits)

lemma decimal_snoc: "decimal (s @ [c]) = 10 * decimal s + digit_val c"
  by (simp add: decimal_def)

lemma decimal_zeros: "decimal (replicate k CHR ''0'' @ s) = decimal s"
proof -
  have z: "foldl (\<lambda>a c. 10 * a + digit_val c) 0 (replicate k CHR ''0'') = 0"
    by (induction k) (simp_all add: digit_val_def)
  show ?thesis by (simp add: decimal_def z)
qed

lemma is_digit_zero: "is_digit CHR ''0''"
  by (simp add: is_digit_def)

lemma token_width_pos: "is_digit d \<Longrightarrow> d \<noteq> CHR ''0'' \<Longrightarrow> 0 < token_width d"
  by (auto simp: is_digit_def token_width_def digit_val_def)

lemma seq_range_same_glob:
  assumes "splitext p = (r, e)" "splitext p' = (r', e')"
    and "frame_search r \<noteq> None" "frame_search r' \<noteq> None"
    and "glob_path_of r e = glob_path_of r' e'"
  shows "sequence_range_from_path glob p = sequence_range_from_path glob p'"
  using assms by (auto simp: sequence_range_from_path_def)

section \<open>Properties of the template resolver\<close>

lemma find_falls_back:
  assumes "falls_back tk path"
  shows "find_sequence_range tk glob path = sequence_range_from_path glob path"
  using assms
  by (auto simp: falls_back_def find_sequence_range_def split: sum.splits option.splits)

lemma find_no_glob:
  assumes "\<not> falls_back tk path"
  shows "find_sequence_range tk glob path = find_sequence_range tk glob' path"
  using assms
  by (auto simp: falls_back_def find_sequence_range_def split: sum.splits option.splits)

lemma find_template_frames:
  assumes "template_from_path tk path = Inr (Some t)"
    and "get_fields tk t path = Inr flds" and "flds ''SEQ'' \<noteq> None"
    and "paths_from_template tk t flds [''SEQ'', ''eye''] = Inr files"
    and "template_frames (get_fields tk) t files = Inr frames"
  shows "find_sequence_range tk glob path =
           (if frames = [] then Inr None else Inr (Some (Min (set frames), Max (set frames))))"
  using assms py_min_Min[of frames] py_max_Max[of frames]
  by (auto simp: find_sequence_range_def)

lemma template_frames_none:
  assumes "\<forall>file \<in> set files. \<exists>flds. gf t file = Inr flds \<and> (flds ''SEQ'' = None \<or> flds ''SEQ'' = Some None)"
  shows "template_frames gf t files = Inr []"
  using assms by (induction files) auto

section \<open>Properties of filter_publishes and resolve_filters\<close>

lemma split_publishes_dicts:
  "list_all is_dict items \<Longrightarrow> split_publishes items = Inr (publishes_of items)"
proof (induction items)
  case Nil
  then show ?case by (simp add: publishes_of_def)
next
  case (Cons item items)
  then obtain d where "item = PDict d" by (cases item) auto
  with Cons show ?case by (auto simp: publishes_of_def split: option.splits)
qed

lemma split_publishes_non_dict:
  "\<not> list_all is_dict items \<Longrightarrow> \<exists>e. split_publishes items = Inl e"
proof (induction items)
  case Nil
  then show ?case by simp
next
  case (Cons item items)
  show ?case
  proof (cases item)
    case (PDict d)
    with Cons obtain e where "split_publishes items = Inl e" by auto
    with PDict show ?thesis by simp
  qed simp_all
qed

lemma resolve_field_keeps: "\<not> is_token field \<Longrightarrow> resolve_field ctx field = Inr field"
  by (simp add: is_token_def context_tokens_def resolve_field_def)

lemma resolve_fields_kept: "resolve_fields ctx flds = Inr vs \<Longrightarrow> fields_kept flds vs"
proof (induction flds arbitrary: vs)
  case Nil
  then show ?case by (simp add: fields_kept_def)
next
  case (Cons field rest)
  then obtain v vs' where v: "resolve_field ctx field = Inr v" "resolve_fields ctx rest = Inr vs'"
      "vs = v # vs'"
    by (auto split: sum.splits)
  from Cons.IH[OF v(2)] have "fields_kept rest vs'" .
  then show ?case using v(1,3) resolve_field_keeps[of field ctx]
    by (auto simp: fields_kept_def)
qed

lemma resolve_filters_Cons:
  assumes "resolve_filters ctx (flt # rest) = Inr out"
  shows "\<exists>res out'. out = res # out' \<and> resolve_filters ctx rest = Inr out' \<and> filter_shape ctx flt res"
proof (cases flt)
  case (PDict d)
  with assms show ?thesis
    by (auto simp: filter_shape_def split: sum.splits option.splits)
next
  case PNone
  with assms show ?thesis by simp
next
  case (PBool b)
  with assms show ?thesis by simp
next
  case (PInt n)
  with assms show ?thesis by simp
next
  case (PStr s)
  with assms show ?thesis
    by (auto simp: filter_shape_def split: sum.splits dest: resolve_fields_kept)
next
  case (PList xs)
  with assms show ?thesis
    by (auto simp: filter_shape_def split: sum.splits dest: resolve_fields_kept)
qed

lemma resolve_filters_shape:
  "resolve_filters ctx filters = Inr out \<Longrightarrow> list_all2 (filter_shape ctx) filters out"
proof (induction filters arbitrary: out)
  case Nil
  then show ?case by simp
next
  case (Cons flt rest)
  from resolve_filters_Cons[OF Cons.prems] obtain res out' where
    o: "out = res # out'" "resolve_filters ctx rest = Inr out'" "filter_shape ctx flt res" by blast
  from Cons.IH[OF o(2)] o(1,3) show ?case by simp
qed

lemma resolve_field_total: "project_ok ctx \<Longrightarrow> \<exists>v. resolve_field ctx field = Inr v"
  by (cases "project ctx") (auto simp: project_ok_def resolve_field_def)

lemma resolve_fields_total: "project_ok ctx \<Longrightarrow> \<exists>vs. resolve_fields ctx flds = Inr vs"
proof (induction flds)
  case Nil
  then show ?case by simp
next
  case (Cons field rest)
  then obtain vs where "resolve_fields ctx rest = Inr vs" by auto
  moreover obtain v where "resolve_field ctx field = Inr v"
    using resolve_field_total[OF Cons.prems] by blast
  ultimately show ?case by simp
qed

lemma resolve_filters_total:
  "project_ok ctx \<Longrightarrow> list_all well_formed filters \<Longrightarrow> \<exists>out. resolve_filters ctx filters = Inr out"
proof (induction ctx filters rule: resolve_filters.induct)
  case (1 ctx)
  then show ?case by simp
next
  case (2 ctx flt rest)
  have wf: "well_formed flt" "list_all well_formed rest" using "2.prems"(2) by simp_all
  have one: "\<exists>res. (case flt of
              PDict d \<Rightarrow>
                (case map_of d ''filter_operator'' of
                   None \<Rightarrow> Inl KeyError
                 | Some op \<Rightarrow>
                     (case map_of d ''filters'' of
                        None \<Rightarrow> Inl KeyError
                      | Some sub \<Rightarrow>
                          (case iterate sub of
                             Inl e \<Rightarrow> Inl e
                           | Inr subs \<Rightarrow>
                               (case resolve_filters ctx subs of
                                  Inl e \<Rightarrow> Inl e
                                | Inr rs \<Rightarrow>
                                    Inr (PDict [(''filter_operator'', op),
                                                (''filters'', PList rs)])))))
            | _ \<Rightarrow>
                (case iterate flt of
                   Inl e \<Rightarrow> Inl e
                 | Inr flds \<Rightarrow>
                     (case resolve_fields ctx flds of
                        Inl e \<Rightarrow> Inl e
                      | Inr vs \<Rightarrow> Inr (PList vs)))) = Inr res"
    (is "\<exists>res. ?one = Inr res")
  proof (cases flt)
    case (PDict d)
    with wf(1) obtain op subs where
      d: "map_of d ''filter_operator'' = Some op" "map_of d ''filters'' = Some (PList subs)"
         "list_all well_formed subs"
      by (auto split: option.splits pyval.splits)
    have "\<exists>rs. resolve_filters ctx subs = Inr rs"
      using "2.IH"(1)[OF PDict d(1) d(2) _ "2.prems"(1) d(3)] by simp
    then show ?thesis using PDict d by auto
  next
    case (PList flds)
    then show ?thesis using resolve_fields_total[OF "2.prems"(1), of flds] by auto
  qed (use wf(1) in simp_all)
  then obtain res where res: "?one = Inr res" by blast
  have "\<exists>out. resolve_filters ctx rest = Inr out"
    using "2.IH"(2)[OF res "2.prems"(1) wf(2)] .
  then show ?case using res by auto
qed

section \<open>The claims\<close>

text \<open>
  C1 (as amended). For every path whose stem ends in a run of decimal digits: when the glob
  obtained by replacing the trailing frame token (the longest trailing run of digits and
  hashes) with a star matches at least one file, and the stem of every matched file ends in a
  frame token of decimal digits only, \<open>sequence_range_from_path\<close> returns the pair of the
  least and the greatest of the base-10 values of these tokens.
\<close>

theorem pattern_range_min_max:
  assumes "splitext path = (root, ext)"
    and "root \<noteq> []" and "is_digit (last root)"
    and "files = glob (stem_prefix root @ ''*'' @ ext)"
    and "files \<noteq> []"
    and "\<forall>f \<in> set files. digit_stem f"
  shows "sequence_range_from_path glob path =
           Inr (Some (Min (frame_value ` set files), Max (frame_value ` set files)))"
proof -
  have t: "trailing_run root \<noteq> []"
    using assms(2,3) by (simp add: trailing_run_nonempty is_digit_frame_char)
  have gp: "glob_path_of root ext = stem_prefix root @ ''*'' @ ext"
    using frame_sub_stem[OF t] by (simp add: glob_path_of_def)
  have fr: "frames_of (map (\<lambda>f. fst (splitext f)) files) = Inr (map frame_value files)"
    using frames_of_digit_stems[OF assms(6)] by simp
  have ne: "map frame_value files \<noteq> []" using assms(5) by simp
  have "frame_range files = Inr (Some (Min (frame_value ` set files), Max (frame_value ` set files)))"
    using fr py_min_Min[OF ne] py_max_Max[OF ne] by (simp add: frame_range_def)
  then show ?thesis
    using assms(1,4) frame_search_stem[OF t] gp
    by (simp add: sequence_range_from_path_def)
qed

text \<open>
  The scenario of C1: the directory holds \<^verbatim>\<open>shot_0010.exr\<close>, \<^verbatim>\<open>shot_0011.exr\<close> and
  \<^verbatim>\<open>shot_0015.exr\<close>, and the call on \<^verbatim>\<open>shot_0011.exr\<close> returns (10, 15).
\<close>

theorem pattern_range_min_max_witness:
  "sequence_range_from_path (dir_glob [''shot_0010.exr'', ''shot_0011.exr'', ''shot_0015.exr''])
     ''shot_0011.exr'' = Inr (Some (10, 15))"
proof -
  let ?d = "[''shot_0010.exr'', ''shot_0011.exr'', ''shot_0015.exr'']"
  have s: "splitext ''shot_0011.exr'' = (''shot_0011'', ''.exr'')"
    by (simp add: splitext_def rfind_def)
  have p: "stem_prefix ''shot_0011'' = ''shot_''"
    by (simp add: stem_prefix_def is_frame_char_def is_digit_def)
  have g: "dir_glob ?d (stem_prefix ''shot_0011'' @ ''*'' @ ''.exr'') = ?d"
    unfolding p by (simp add: dir_glob_def is_hidden_def)
  have d: "\<forall>f \<in> set ?d. digit_stem f"
    by (simp add: digit_stem_def splitext_def rfind_def trailing_run_def is_frame_char_def is_digit_def)
  have v: "frame_value ` set ?d = {10, 11, 15}"
    by (simp add: frame_value_def decimal_def digit_val_def splitext_def rfind_def trailing_run_def is_frame_char_def is_digit_def)
  have "sequence_range_from_path (dir_glob ?d) ''shot_0011.exr'' =
          Inr (Some (Min (frame_value ` set ?d), Max (frame_value ` set ?d)))"
    using pattern_range_min_max[where glob = "dir_glob ?d" and files = ?d, OF s] g d
    by (simp add: is_digit_def)
  then show ?thesis unfolding v by simp
qed

text \<open>
  C1 as stated promises a pair for every such path. With a sibling \<^verbatim>\<open>shot_final.exr\<close> in the
  directory the call raises AttributeError, and in a directory without a match it raises
  ValueError.
\<close>

theorem pattern_range_counterexample:
  "is_digit (last (fst (splitext ''shot_0011.exr''))) \<and>
   sequence_range_from_path (dir_glob [''shot_0011.exr'', ''shot_final.exr'']) ''shot_0011.exr''
     = Inl AttributeError \<and>
   sequence_range_from_path (dir_glob []) ''shot_0011.exr'' = Inl ValueError"
  by (simp add: sequence_range_from_path_def splitext_def rfind_def glob_path_of_def dir_glob_def
      is_hidden_def match_here_def at_end_def is_frame_char_def is_digit_def frame_number_def
      frame_range_def py_int_def decimal_def digit_val_def)

text \<open>
  C2. When classification fails or the fields of the matched template lack \<^verbatim>\<open>SEQ\<close>,
  \<open>find_sequence_range\<close> returns the result of \<open>sequence_range_from_path\<close>. In every other
  case its result does not depend on the file system that globbing reads, and when the
  template calls succeed with at least one frame it is the least and the greatest of the
  \<^verbatim>\<open>SEQ\<close> values of the enumerated siblings.
\<close>

theorem template_precedence:
  "(falls_back tk path \<longrightarrow>
      find_sequence_range tk glob path = sequence_range_from_path glob path) \<and>
   (\<not> falls_back tk path \<longrightarrow>
      (\<forall>glob'. find_sequence_range tk glob path = find_sequence_range tk glob' path) \<and>
      (\<forall>t flds files frames.
         template_from_path tk path = Inr (Some t) \<and> get_fields tk t path = Inr flds \<and>
         paths_from_template tk t flds [''SEQ'', ''eye''] = Inr files \<and>
         template_frames (get_fields tk) t files = Inr frames \<and> frames \<noteq> [] \<longrightarrow>
         find_sequence_range tk glob path = Inr (Some (Min (set frames), Max (set frames)))))"
proof (intro conjI impI allI)
  assume "falls_back tk path"
  then show "find_sequence_range tk glob path = sequence_range_from_path glob path"
    by (rule find_falls_back)
next
  fix glob'
  assume "\<not> falls_back tk path"
  then show "find_sequence_range tk glob path = find_sequence_range tk glob' path"
    by (rule find_no_glob)
next
  fix t flds files frames
  assume nf: "\<not> falls_back tk path"
    and h: "template_from_path tk path = Inr (Some t) \<and> get_fields tk t path = Inr flds \<and>
         paths_from_template tk t flds [''SEQ'', ''eye''] = Inr files \<and>
         template_frames (get_fields tk) t files = Inr frames \<and> frames \<noteq> []"
  then have "flds ''SEQ'' \<noteq> None" by (auto simp: falls_back_def)
  with h find_template_frames[of tk path t flds files frames glob]
  show "find_sequence_range tk glob path = Inr (Some (Min (set frames), Max (set frames)))"
    by simp
qed

theorem template_precedence_witness:
  "find_sequence_range no_templates
       (dir_glob [''shot_0010.exr'', ''shot_0011.exr'', ''shot_0015.exr'']) ''shot_0011.exr''
     = sequence_range_from_path
       (dir_glob [''shot_0010.exr'', ''shot_0011.exr'', ''shot_0015.exr'']) ''shot_0011.exr'' \<and>
   find_sequence_range shot_templates
       (dir_glob [''shot_0010.exr'', ''shot_0011.exr'', ''shot_0015.exr'']) ''shot_0011.exr''
     = Inr (Some (1001, 1003)) \<and>
   find_sequence_range shot_templates
       (dir_glob [''shot_0010.exr'', ''shot_0011.exr'', ''shot_0015.exr'']) ''shot_0011.exr''
     = find_sequence_range shot_templates (dir_glob []) ''shot_0011.exr'' \<and>
   find_sequence_range shot_templates
       (dir_glob [''shot_0010.exr'', ''shot_0011.exr'', ''shot_0015.exr'']) ''shot_0010.exr''
     = sequence_range_from_path
       (dir_glob [''shot_0010.exr'', ''shot_0011.exr'', ''shot_0015.exr'']) ''shot_0010.exr''"
proof -
  let ?g = "dir_glob [''shot_0010.exr'', ''shot_0011.exr'', ''shot_0015.exr'']"
  have f1: "falls_back no_templates ''shot_0011.exr''"
    by (simp add: falls_back_def no_templates_def)
  have f2: "\<not> falls_back shot_templates ''shot_0011.exr''"
    by (simp add: falls_back_def shot_templates_def shot_fields_def)
  have e: "template_from_path shot_templates ''shot_0011.exr'' = Inr (Some ()) \<and>
      get_fields shot_templates () ''shot_0011.exr'' = Inr (shot_fields ''shot_0011.exr'') \<and>
      paths_from_template shot_templates () (shot_fields ''shot_0011.exr'') [''SEQ'', ''eye'']
        = Inr [''shot_1001.exr'', ''shot_1003.exr''] \<and>
      template_frames (get_fields shot_templates) () [''shot_1001.exr'', ''shot_1003.exr'']
        = Inr [1001, 1003] \<and> [1001, 1003] \<noteq> ([] :: int list)"
    by (simp add: shot_templates_def shot_fields_def)
  from template_precedence[of no_templates "''shot_0011.exr''" ?g] f1
  have a: "find_sequence_range no_templates ?g ''shot_0011.exr''
      = sequence_range_from_path ?g ''shot_0011.exr''" by blast
  from template_precedence[of shot_templates "''shot_0011.exr''" ?g] f2
  have b: "find_sequence_range shot_templates ?g ''shot_0011.exr''
      = find_sequence_range shot_templates (dir_glob []) ''shot_0011.exr''" by blast
  from template_precedence[of shot_templates "''shot_0011.exr''" ?g] f2 e
  have "find_sequence_range shot_templates ?g ''shot_0011.exr''
      = Inr (Some (Min (set [1001, 1003]), Max (set [1001, 1003])))" by blast
  then have c: "find_sequence_range shot_templates ?g ''shot_0011.exr'' = Inr (Some (1001, 1003))"
    by simp
  have f3: "falls_back shot_templates ''shot_0010.exr''"
    by (simp add: falls_back_def shot_templates_def shot_fields_def)
  from template_precedence[of shot_templates "''shot_0010.exr''" ?g] f3
  have d: "find_sequence_range shot_templates ?g ''shot_0010.exr''
      = sequence_range_from_path ?g ''shot_0010.exr''" by blast
  show ?thesis using a b c d by blast
qed

text \<open>
  C3. When a template matches, its fields include \<^verbatim>\<open>SEQ\<close>, and no enumerated sibling gives
  a frame number (no sibling at all, or none with a \<^verbatim>\<open>SEQ\<close> value), \<open>find_sequence_range\<close>
  returns None, whatever pattern-based resolution would find.
\<close>

theorem empty_enumeration_absent:
  assumes "template_from_path tk path = Inr (Some t)"
    and "get_fields tk t path = Inr flds" and "flds ''SEQ'' \<noteq> None"
    and "paths_from_template tk t flds [''SEQ'', ''eye''] = Inr files"
    and "\<forall>file \<in> set files. \<exists>fl. get_fields tk t file = Inr fl \<and>
           (fl ''SEQ'' = None \<or> fl ''SEQ'' = Some None)"
  shows "find_sequence_range tk glob path = Inr None"
  using find_template_frames[OF assms(1-4) template_frames_none[where gf = "get_fields tk", OF assms(5)]] by simp

theorem empty_enumeration_absent_witness:
  "find_sequence_range lone_templates
       (dir_glob [''shot_0010.exr'', ''shot_0011.exr'', ''shot_0015.exr'']) ''shot_0011.exr''
     = Inr None \<and>
   sequence_range_from_path
       (dir_glob [''shot_0010.exr'', ''shot_0011.exr'', ''shot_0015.exr'']) ''shot_0011.exr''
     = Inr (Some (10, 15))"
proof -
  let ?g = "dir_glob [''shot_0010.exr'', ''shot_0011.exr'', ''shot_0015.exr'']"
  have 1: "template_from_path lone_templates ''shot_0011.exr'' = Inr (Some ())"
    by (simp add: lone_templates_def)
  have 2: "get_fields lone_templates () ''shot_0011.exr'' = Inr (shot_fields ''shot_0011.exr'')"
    by (simp add: lone_templates_def)
  have 3: "shot_fields ''shot_0011.exr'' ''SEQ'' \<noteq> None" by (simp add: shot_fields_def)
  have 4: "paths_from_template lone_templates () (shot_fields ''shot_0011.exr'') [''SEQ'', ''eye''] = Inr []"
    by (simp add: lone_templates_def)
  have 5: "\<forall>file \<in> set []. \<exists>fl. get_fields lone_templates () file = Inr fl \<and>
           (fl ''SEQ'' = None \<or> fl ''SEQ'' = Some None)" by simp
  have a: "find_sequence_range lone_templates ?g ''shot_0011.exr'' = Inr None"
    using empty_enumeration_absent[where glob = ?g, OF 1 2 3 4 5] .
  have b: "sequence_range_from_path ?g ''shot_0011.exr'' = Inr (Some (10, 15))"
    by (simp add: sequence_range_from_path_def splitext_def rfind_def glob_path_of_def dir_glob_def
      is_hidden_def match_here_def at_end_def is_frame_char_def is_digit_def frame_number_def
      frame_range_def py_int_def decimal_def digit_val_def)
  show ?thesis using a b by simp
qed

text \<open>
  C4 fails on the code at a stem with a newline after the digits: \<^verbatim>\<open>$\<close> holds before a final
  newline, so the stem \<^verbatim>\<open>abc12\n\<close>, which does not end in a frame token, is matched, the file
  system is asked for \<^verbatim>\<open>abc*\n\<close>, and the result is never None: ValueError in a directory
  without a match, (12, 12) in a directory that holds the file. (For a stem that has no frame
  token, also not before a final newline, the result is None: \<open>no_marker_absent\<close>.)
\<close>

theorem newline_stem_not_absent:
  "splitext (''abc12'' @ [CHR 0x0A]) = (''abc12'' @ [CHR 0x0A], []) \<and>
   \<not> ends_in_frame_token (''abc12'' @ [CHR 0x0A]) \<and>
   (\<forall>glob. sequence_range_from_path glob (''abc12'' @ [CHR 0x0A]) \<noteq> Inr None) \<and>
   sequence_range_from_path (dir_glob []) (''abc12'' @ [CHR 0x0A]) = Inl ValueError \<and>
   sequence_range_from_path (dir_glob [''abc12'' @ [CHR 0x0A]]) (''abc12'' @ [CHR 0x0A]) = Inr (Some (12, 12))"
proof -
  have s: "splitext (''abc12'' @ [CHR 0x0A]) = (''abc12'' @ [CHR 0x0A], [])"
    by (simp add: splitext_def rfind_def)
  have m: "frame_search (''abc12'' @ [CHR 0x0A]) = Some (''abc'', ''12'', [CHR 0x0A])"
    by (simp add: match_here_def at_end_def is_frame_char_def is_digit_def)
  have e: "\<not> ends_in_frame_token (''abc12'' @ [CHR 0x0A])"
    by (simp add: ends_in_frame_token_def is_frame_char_def is_digit_def)
  have a: "\<forall>glob. sequence_range_from_path glob (''abc12'' @ [CHR 0x0A]) \<noteq> Inr None"
    using seq_range_unfold[OF s m] frame_range_not_absent by simp
  have v: "sequence_range_from_path (dir_glob []) (''abc12'' @ [CHR 0x0A]) = Inl ValueError"
    unfolding seq_range_unfold[OF s m] by (simp add: dir_glob_def frame_range_def)
  have w: "sequence_range_from_path (dir_glob [''abc12'' @ [CHR 0x0A]]) (''abc12'' @ [CHR 0x0A]) = Inr (Some (12, 12))"
    by (simp add: sequence_range_from_path_def splitext_def rfind_def glob_path_of_def dir_glob_def
        is_hidden_def match_here_def at_end_def is_frame_char_def is_digit_def frame_number_def
        frame_range_def py_int_def decimal_def digit_val_def)
  show ?thesis using s e a v w by blast
qed

text \<open>
  C5. \<^verbatim>\<open>int\<close> reads a run of digits as its base-10 value, digit by digit, and leading zeros
  do not change it; in a directory that holds \<^verbatim>\<open>file_007.jpg\<close> and \<^verbatim>\<open>file_12.jpg\<close> the
  range of either path is (7, 12).
\<close>

theorem leading_zeros_insignificant:
  "(s \<noteq> [] \<and> list_all is_digit s \<longrightarrow>
      py_int s = Inr (decimal s) \<and>
      py_int (replicate k CHR ''0'' @ s) = py_int s \<and>
      (\<forall>c. is_digit c \<longrightarrow> py_int (s @ [c]) = Inr (10 * decimal s + digit_val c))) \<and>
   sequence_range_from_path (dir_glob [''file_007.jpg'', ''file_12.jpg'']) ''file_007.jpg''
     = Inr (Some (7, 12)) \<and>
   sequence_range_from_path (dir_glob [''file_007.jpg'', ''file_12.jpg'']) ''file_12.jpg''
     = Inr (Some (7, 12))"
proof -
  have a: "sequence_range_from_path (dir_glob [''file_007.jpg'', ''file_12.jpg'']) ''file_007.jpg''
     = Inr (Some (7, 12))"
    by (simp add: sequence_range_from_path_def splitext_def rfind_def glob_path_of_def dir_glob_def
      is_hidden_def match_here_def at_end_def is_frame_char_def is_digit_def frame_number_def
      frame_range_def py_int_def decimal_def digit_val_def)
  have b: "sequence_range_from_path (dir_glob [''file_007.jpg'', ''file_12.jpg'']) ''file_12.jpg''
     = Inr (Some (7, 12))"
    by (simp add: sequence_range_from_path_def splitext_def rfind_def glob_path_of_def dir_glob_def
      is_hidden_def match_here_def at_end_def is_frame_char_def is_digit_def frame_number_def
      frame_range_def py_int_def decimal_def digit_val_def)
  have c: "s \<noteq> [] \<and> list_all is_digit s \<longrightarrow>
      py_int s = Inr (decimal s) \<and>
      py_int (replicate k CHR ''0'' @ s) = py_int s \<and>
      (\<forall>c. is_digit c \<longrightarrow> py_int (s @ [c]) = Inr (10 * decimal s + digit_val c))"
    by (auto simp: py_int_def decimal_zeros decimal_snoc is_digit_zero list_all_iff)
  show ?thesis using a b c by blast
qed

theorem leading_zeros_insignificant_witness:
  "py_int ''0007'' = py_int ''7'' \<and> py_int ''7'' = Inr 7 \<and> py_int ''12'' = Inr 12"
proof -
  have d: "''7'' \<noteq> [] \<and> list_all is_digit ''7''" by (simp add: is_digit_def)
  have r: "replicate 3 CHR ''0'' @ ''7'' = ''0007''" by (simp add: numeral_3_eq_3)
  have v: "decimal ''1'' = 1" "digit_val CHR ''2'' = 2" "decimal ''7'' = 7"
    by (simp_all add: decimal_def digit_val_def)
  have d1: "''1'' \<noteq> [] \<and> list_all is_digit ''1''" "is_digit CHR ''2''" by (simp_all add: is_digit_def)
  from leading_zeros_insignificant[of "''7''" 3] d r v
  have "py_int ''0007'' = py_int ''7'' \<and> py_int ''7'' = Inr 7" by simp
  moreover from leading_zeros_insignificant[of "''1''" 0] d1 v
  have "py_int ''12'' = Inr 12" by simp
  ultimately show ?thesis by simp
qed

text \<open>
  C6 (as amended). For a stem prefix that does not end in a digit or a hash, and a width
  \<open>N\<close> from 1 to 9: the stems that continue the prefix with the token \<^verbatim>\<open>%0Nd\<close>, with \<open>N\<close>
  hashes and with \<open>N\<close> digits give the same glob pattern, the prefix followed by a star and
  the extension, and so the same result on the same file system.
\<close>

theorem tokens_same_glob:
  assumes "pre = [] \<or> \<not> is_frame_char (last pre)"
    and "is_digit n" and "n \<noteq> CHR ''0''"
    and "length ds = token_width n" and "list_all is_digit ds"
    and "splitext p1 = (pre @ frame_token n, ext)"
    and "splitext p2 = (pre @ replicate (token_width n) CHR ''#'', ext)"
    and "splitext p3 = (pre @ ds, ext)"
  shows "glob_path_of (pre @ frame_token n) ext = pre @ ''*'' @ ext \<and>
         glob_path_of (pre @ replicate (token_width n) CHR ''#'') ext = pre @ ''*'' @ ext \<and>
         glob_path_of (pre @ ds) ext = pre @ ''*'' @ ext \<and>
         sequence_range_from_path glob p1 = sequence_range_from_path glob p2 \<and>
         sequence_range_from_path glob p2 = sequence_range_from_path glob p3"
proof -
  let ?h = "replicate (token_width n) CHR ''#''"
  have w: "0 < token_width n" using assms(2,3) by (rule token_width_pos)
  have h: "?h \<noteq> []" "list_all is_frame_char ?h"
    using w by (simp_all add: list_all_iff is_frame_char_def)
  have d: "ds \<noteq> []" "list_all is_frame_char ds"
    using w assms(4,5) by (auto simp: list_all_iff is_frame_char_def)
  have g1: "glob_path_of (pre @ frame_token n) ext = pre @ ''*'' @ ext"
    by (simp add: glob_path_of_def frame_sub_token[OF assms(2)])
  have g2: "glob_path_of (pre @ ?h) ext = pre @ ''*'' @ ext"
    by (simp add: glob_path_of_def frame_sub_run[OF h assms(1)])
  have g3: "glob_path_of (pre @ ds) ext = pre @ ''*'' @ ext"
    by (simp add: glob_path_of_def frame_sub_run[OF d assms(1)])
  have m1: "frame_search (pre @ frame_token n) \<noteq> None"
    by (simp add: frame_search_token[OF assms(2)])
  have m2: "frame_search (pre @ ?h) \<noteq> None"
    by (simp add: frame_search_run[OF h assms(1)])
  have m3: "frame_search (pre @ ds) \<noteq> None"
    by (simp add: frame_search_run[OF d assms(1)])
  have "sequence_range_from_path glob p1 = sequence_range_from_path glob p2"
    using seq_range_same_glob[OF assms(6,7) m1 m2] g1 g2 by simp
  moreover have "sequence_range_from_path glob p2 = sequence_range_from_path glob p3"
    using seq_range_same_glob[OF assms(7,8) m2 m3] g2 g3 by simp
  ultimately show ?thesis using g1 g2 g3 by simp
qed

theorem tokens_same_glob_witness:
  "sequence_range_from_path (dir_glob [''shot_0010.exr'', ''shot_0015.exr'']) ''shot_%04d.exr''
     = sequence_range_from_path (dir_glob [''shot_0010.exr'', ''shot_0015.exr'']) ''shot_####.exr'' \<and>
   sequence_range_from_path (dir_glob [''shot_0010.exr'', ''shot_0015.exr'']) ''shot_####.exr''
     = sequence_range_from_path (dir_glob [''shot_0010.exr'', ''shot_0015.exr'']) ''shot_0011.exr'' \<and>
   glob_path_of ''shot_%04d'' ''.exr'' = ''shot_*.exr''"
proof -
  have w: "token_width CHR ''4'' = 4" by (simp add: token_width_def digit_val_def)
  have h: "''shot_'' = [] \<or> \<not> is_frame_char (last ''shot_'')"
    by (simp add: is_frame_char_def is_digit_def)
  have n: "is_digit CHR ''4''" "CHR ''4'' \<noteq> CHR ''0''" by (simp_all add: is_digit_def)
  have d: "length ''0011'' = token_width CHR ''4''" "list_all is_digit ''0011''"
    by (simp_all add: w is_digit_def)
  have s1: "splitext ''shot_%04d.exr'' = (''shot_'' @ frame_token CHR ''4'', ''.exr'')"
    by (simp add: splitext_def rfind_def frame_token_def)
  have s2: "splitext ''shot_####.exr'' = (''shot_'' @ replicate (token_width CHR ''4'') CHR ''#'', ''.exr'')"
    by (simp add: w splitext_def rfind_def numeral_eq_Suc)
  have s3: "splitext ''shot_0011.exr'' = (''shot_'' @ ''0011'', ''.exr'')"
    by (simp add: splitext_def rfind_def)
  from tokens_same_glob[where glob = "dir_glob [''shot_0010.exr'', ''shot_0015.exr'']", OF h n d s1 s2 s3]
  show ?thesis by (simp add: frame_token_def)
qed

text \<open>
  C6 as stated, for any prefix, fails at the prefix \<^verbatim>\<open>shot1\<close>: the run of hashes is matched
  together with the digit before it, the \<^verbatim>\<open>%04d\<close> token alone.
\<close>

theorem tokens_same_glob_counterexample:
  "splitext ''shot1%04d.exr'' = (''shot1'' @ ''%04d'', ''.exr'') \<and>
   splitext ''shot1####.exr'' = (''shot1'' @ ''####'', ''.exr'') \<and>
   glob_path_of (''shot1'' @ ''%04d'') ''.exr'' = ''shot1*.exr'' \<and>
   glob_path_of (''shot1'' @ ''####'') ''.exr'' = ''shot*.exr'' \<and>
   sequence_range_from_path (dir_glob [''shot10001.exr'', ''shot20002.exr'']) ''shot1%04d.exr''
     = Inr (Some (10001, 10001)) \<and>
   sequence_range_from_path (dir_glob [''shot10001.exr'', ''shot20002.exr'']) ''shot1####.exr''
     = Inr (Some (10001, 20002))"
  by (simp add: sequence_range_from_path_def splitext_def rfind_def glob_path_of_def dir_glob_def
      is_hidden_def match_here_def at_end_def is_frame_char_def is_digit_def frame_number_def
      frame_range_def py_int_def decimal_def digit_val_def)

text \<open>
  C7. When a file that the glob step enumerates has a stem from which the frame pattern gives
  no integer (the search fails, or group 1 is not a number), \<open>sequence_range_from_path\<close>
  raises: the file is not skipped.
\<close>

theorem bad_sibling_raises:
  assumes "splitext path = (root, ext)"
    and "frame_search root \<noteq> None"
    and "f \<in> set (glob (glob_path_of root ext))"
    and "frame_number (fst (splitext f)) = Inl e"
  shows "\<exists>e'. sequence_range_from_path glob path = Inl e'"
proof -
  obtain m where "frame_search root = Some m" using assms(2) by auto
  note u = seq_range_unfold[OF assms(1) this]
  have "fst (splitext f) \<in> set (map (\<lambda>f. fst (splitext f)) (glob (glob_path_of root ext)))"
    using assms(3) by simp
  from frames_of_error[OF this assms(4)] show ?thesis
    unfolding u by (auto simp: frame_range_def)
qed

theorem bad_sibling_raises_witness:
  "\<exists>e'. sequence_range_from_path (dir_glob [''file_007.jpg'', ''file_final.jpg''])
          ''file_007.jpg'' = Inl e'"
proof -
  let ?d = "[''file_007.jpg'', ''file_final.jpg'']"
  have s: "splitext ''file_007.jpg'' = (''file_007'', ''.jpg'')"
    by (simp add: splitext_def rfind_def)
  have m: "frame_search ''file_007'' \<noteq> None"
    by (simp add: match_here_def at_end_def is_frame_char_def is_digit_def)
  have g: "''file_final.jpg'' \<in> set (dir_glob ?d (glob_path_of ''file_007'' ''.jpg''))"
    by (simp add: glob_path_of_def dir_glob_def is_hidden_def match_here_def at_end_def
        is_frame_char_def is_digit_def)
  have n: "frame_number (fst (splitext ''file_final.jpg'')) = Inl AttributeError"
    by (simp add: frame_number_def splitext_def rfind_def match_here_def at_end_def
        is_frame_char_def is_digit_def)
  show ?thesis using bad_sibling_raises[where glob = "dir_glob ?d", OF s m g n] .
qed

text \<open>
  C8. When the stem of the path matches the frame pattern and the derived glob pattern
  enumerates no file, \<open>sequence_range_from_path\<close> raises ValueError (the minimum of an empty
  list); it returns neither None nor a range.
\<close>

theorem empty_glob_raises:
  assumes "splitext path = (root, ext)"
    and "frame_search root \<noteq> None"
    and "glob (glob_path_of root ext) = []"
  shows "sequence_range_from_path glob path = Inl ValueError"
proof -
  obtain m where "frame_search root = Some m" using assms(2) by auto
  from seq_range_unfold[OF assms(1) this] assms(3) show ?thesis
    by (simp add: frame_range_def)
qed

theorem empty_glob_raises_witness:
  "sequence_range_from_path (dir_glob [''notes.txt'']) ''file_12.jpg'' = Inl ValueError"
proof -
  have s: "splitext ''file_12.jpg'' = (''file_12'', ''.jpg'')"
    by (simp add: splitext_def rfind_def)
  have m: "frame_search ''file_12'' \<noteq> None"
    by (simp add: match_here_def at_end_def is_frame_char_def is_digit_def)
  have g: "dir_glob [''notes.txt''] (glob_path_of ''file_12'' ''.jpg'') = []"
    by (simp add: glob_path_of_def dir_glob_def match_here_def at_end_def is_frame_char_def is_digit_def)
  show ?thesis using empty_glob_raises[where glob = "dir_glob [''notes.txt'']", OF s m g] .
qed

text \<open>
  C9 (as amended). \<open>filter_publishes\<close> returns a list for every input and every hook (the
  log calls taken not to raise). The list is empty when the hook raises, when it returns a
  value that is not a list, and when it returns a list with an item that is not a
  dictionary; otherwise it holds, in the order of the hook's output, the \<^verbatim>\<open>sg_publish\<close>
  values that are present and truthy.
\<close>

theorem filter_publishes_result:
  "((\<exists>e. hook_result ap sg_data_list = Inl e) \<longrightarrow> fst (filter_publishes ap sg_data_list) = []) \<and>
   (\<forall>v. hook_result ap sg_data_list = Inr v \<and> \<not> is_list v \<longrightarrow>
        fst (filter_publishes ap sg_data_list) = []) \<and>
   (\<forall>items. hook_result ap sg_data_list = Inr (PList items) \<and> \<not> list_all is_dict items \<longrightarrow>
        fst (filter_publishes ap sg_data_list) = []) \<and>
   (\<forall>items. hook_result ap sg_data_list = Inr (PList items) \<and> list_all is_dict items \<longrightarrow>
        fst (filter_publishes ap sg_data_list) = publishes_of items)"
proof (intro conjI allI impI)
  assume "\<exists>e. hook_result ap sg_data_list = Inl e"
  then show "fst (filter_publishes ap sg_data_list) = []"
    by (auto simp: hook_result_def filter_publishes_def)
next
  fix v
  assume "hook_result ap sg_data_list = Inr v \<and> \<not> is_list v"
  then show "fst (filter_publishes ap sg_data_list) = []"
    by (cases v) (auto simp: hook_result_def filter_publishes_def)
next
  fix items
  assume h: "hook_result ap sg_data_list = Inr (PList items) \<and> \<not> list_all is_dict items"
  then obtain e where "split_publishes items = Inl e"
    using split_publishes_non_dict by blast
  with h show "fst (filter_publishes ap sg_data_list) = []"
    by (simp add: hook_result_def filter_publishes_def)
next
  fix items
  assume h: "hook_result ap sg_data_list = Inr (PList items) \<and> list_all is_dict items"
  then have "split_publishes items = Inr (publishes_of items)"
    by (simp add: split_publishes_dicts)
  with h show "fst (filter_publishes ap sg_data_list) = publishes_of items"
    by (simp add: hook_result_def filter_publishes_def)
qed

theorem filter_publishes_result_witness:
  "fst (filter_publishes keep_all [PDict [(''id'', PInt 1)], PDict [], PDict [(''id'', PInt 3)]])
     = [PDict [(''id'', PInt 1)], PDict [(''id'', PInt 3)]] \<and>
   fst (filter_publishes failing_hook [PDict [(''id'', PInt 1)]]) = [] \<and>
   fst (filter_publishes none_hook [PDict [(''id'', PInt 1)]]) = [] \<and>
   fst (filter_publishes sloppy_hook [PDict [(''id'', PInt 1)]]) = []"
proof -
  let ?in = "[PDict [(''id'', PInt 1)], PDict [], PDict [(''id'', PInt 3)]]"
  let ?items = "map (\<lambda>sg_data. PDict [(''sg_publish'', sg_data)]) ?in"
  have 1: "hook_result keep_all ?in = Inr (PList ?items) \<and> list_all is_dict ?items"
    by (simp add: hook_result_def keep_all_def)
  have p: "publishes_of ?items = [PDict [(''id'', PInt 1)], PDict [(''id'', PInt 3)]]"
    by (simp add: publishes_of_def)
  have 2: "\<exists>e. hook_result failing_hook [PDict [(''id'', PInt 1)]] = Inl e"
    by (simp add: hook_result_def failing_hook_def)
  have 3: "hook_result none_hook [PDict [(''id'', PInt 1)]] = Inr PNone \<and> \<not> is_list PNone"
    by (simp add: hook_result_def none_hook_def)
  have 4: "hook_result sloppy_hook [PDict [(''id'', PInt 1)]]
        = Inr (PList [PDict [(''sg_publish'', PDict [(''id'', PInt 1)])], PNone]) \<and>
      \<not> list_all is_dict [PDict [(''sg_publish'', PDict [(''id'', PInt 1)])], PNone]"
    by (simp add: hook_result_def sloppy_hook_def)
  have a: "fst (filter_publishes keep_all ?in) = publishes_of ?items"
    using filter_publishes_result[of keep_all ?in] 1 by blast
  have b: "fst (filter_publishes failing_hook [PDict [(''id'', PInt 1)]]) = []"
    using filter_publishes_result[of failing_hook "[PDict [(''id'', PInt 1)]]"] 2 by blast
  have c: "fst (filter_publishes none_hook [PDict [(''id'', PInt 1)]]) = []"
    using filter_publishes_result[of none_hook "[PDict [(''id'', PInt 1)]]"] 3 by blast
  have d: "fst (filter_publishes sloppy_hook [PDict [(''id'', PInt 1)]]) = []"
    using filter_publishes_result[of sloppy_hook "[PDict [(''id'', PInt 1)]]"] 4 by blast
  show ?thesis using a b c d unfolding p by simp
qed

text \<open>
  C9 as stated fails for a hook that returns a list with an item that is not a dictionary:
  \<^verbatim>\<open>item.get\<close> raises AttributeError, the \<^verbatim>\<open>except\<close> clause resets the result, and the publish
  of the first item is lost.
\<close>

theorem filter_publishes_counterexample:
  "hook_result sloppy_hook [PDict [(''id'', PInt 1)]]
     = Inr (PList [PDict [(''sg_publish'', PDict [(''id'', PInt 1)])], PNone]) \<and>
   publishes_of [PDict [(''sg_publish'', PDict [(''id'', PInt 1)])], PNone]
     = [PDict [(''id'', PInt 1)]] \<and>
   fst (filter_publishes sloppy_hook [PDict [(''id'', PInt 1)]]) = []"
  by (simp add: hook_result_def sloppy_hook_def publishes_of_def filter_publishes_def)

text \<open>
  C10. Whenever \<open>resolve_filters\<close> returns, its output has the length of its input; at each
  position a dictionary filter is rebuilt with its \<^verbatim>\<open>filter_operator\<close> unchanged and its
  \<^verbatim>\<open>filters\<close> resolved recursively, and a filter that is not a dictionary becomes the list of
  its fields, each field that is not one of the six context tokens unchanged at its position.
  It returns for every list of filters in the documented format.
\<close>

theorem resolve_filters_preserves_shape:
  "(\<forall>out. resolve_filters ctx filters = Inr out \<longrightarrow>
      length out = length filters \<and> list_all2 (filter_shape ctx) filters out) \<and>
   (project_ok ctx \<and> list_all well_formed filters \<longrightarrow>
      (\<exists>out. resolve_filters ctx filters = Inr out))"
proof (intro conjI allI impI)
  fix out assume r: "resolve_filters ctx filters = Inr out"
  from resolve_filters_shape[OF r]
  show "list_all2 (filter_shape ctx) filters out" .
  then show "length out = length filters" by (simp add: list_all2_lengthD)
next
  assume "project_ok ctx \<and> list_all well_formed filters"
  then show "\<exists>out. resolve_filters ctx filters = Inr out"
    using resolve_filters_total[of ctx filters] by blast
qed

theorem resolve_filters_preserves_shape_witness:
  "resolve_filters artist_context artist_filters =
     Inr [PList [PStr ''task_assignees'', PStr ''is'',
                 PDict [(''type'', PStr ''HumanUser''), (''id'', PInt 86)]],
          PDict [(''filter_operator'', PStr ''any''),
                 (''filters'', PList [PList [PStr ''project.id'', PStr ''is'', PInt 7]])]] \<and>
   list_all2 (filter_shape artist_context) artist_filters
     [PList [PStr ''task_assignees'', PStr ''is'',
             PDict [(''type'', PStr ''HumanUser''), (''id'', PInt 86)]],
      PDict [(''filter_operator'', PStr ''any''),
             (''filters'', PList [PList [PStr ''project.id'', PStr ''is'', PInt 7]])]]"
proof -
  let ?out = "[PList [PStr ''task_assignees'', PStr ''is'',
                 PDict [(''type'', PStr ''HumanUser''), (''id'', PInt 86)]],
          PDict [(''filter_operator'', PStr ''any''),
                 (''filters'', PList [PList [PStr ''project.id'', PStr ''is'', PInt 7]])]]"
  have ok: "project_ok artist_context \<and> list_all well_formed artist_filters"
    by (simp add: project_ok_def artist_context_def artist_filters_def)
  from resolve_filters_preserves_shape[of artist_context artist_filters] ok
  obtain out where out: "resolve_filters artist_context artist_filters = Inr out" by blast
  have r: "resolve_filters artist_context artist_filters = Inr ?out"
    by (simp add: artist_context_def artist_filters_def resolve_field_def)
  from resolve_filters_preserves_shape[of artist_context artist_filters] r
  have "list_all2 (filter_shape artist_context) artist_filters ?out" by blast
  then show ?thesis using r by simp
qed

end
